theory Spec2Isabelle
  imports Main "HOL-Library.Sublist"
begin

section \<open>Strings\<close>

text \<open>
  A Python \<open>str\<close> is a sequence of code points. It is modelled as a \<open>string\<close> in
  which every \<open>char\<close> stands for one code point, so the model covers the texts whose
  code points lie below 256; \<open>length\<close> counts code points, as \<open>len\<close> does.
\<close>

abbreviation nl :: char where
  "nl \<equiv> CHR 0x0A"

text \<open>
  \<open>str.isspace\<close> on one code point, which is also the class \<open>\s\<close> of \<open>re\<close> and
  the set that \<open>str.strip()\<close> removes: U+0009..U+000D, U+001C..U+0020, U+0085 and
  U+00A0 are the white space below 256.
\<close>

definition is_space :: "char \<Rightarrow> bool" where
  "is_space c = (c \<in> set [CHR 0x09, CHR 0x0A, CHR 0x0B, CHR 0x0C, CHR 0x0D,
     CHR 0x1C, CHR 0x1D, CHR 0x1E, CHR 0x1F, CHR 0x20, CHR 0x85, CHR 0xA0])"

text \<open>\<open>s.strip(chars)\<close>: the longest prefix and suffix inside the class are removed.\<close>

definition strip_chars :: "(char \<Rightarrow> bool) \<Rightarrow> string \<Rightarrow> string" where
  "strip_chars P s = rev (dropWhile P (rev (dropWhile P s)))"

definition strip :: "string \<Rightarrow> string" where
  "strip s = strip_chars is_space s"

text \<open>\<open>s.split(c)\<close> for a separator of one character; the empty text gives one empty field.\<close>

fun split_on :: "char \<Rightarrow> string \<Rightarrow> string list" where
  "split_on c [] = [[]]"
| "split_on c (x # xs) =
     (case split_on c xs of
        [] \<Rightarrow> [[x]]
      | field # fields \<Rightarrow> if x = c then [] # field # fields else (x # field) # fields)"

text \<open>\<open>c.join(parts)\<close>.\<close>

fun join_on :: "char \<Rightarrow> string list \<Rightarrow> string" where
  "join_on c [] = []"
| "join_on c [p] = p"
| "join_on c (p # q # ps) = p @ c # join_on c (q # ps)"

section \<open>Section segmenter\<close>

record readme_section =
  title :: string
  content :: string
  level :: nat

text \<open>\<open>line.startswith('# ') or line.startswith('## ')\<close>\<close>

definition is_heading :: "string \<Rightarrow> bool" where
  "is_heading line = (prefix ''# '' line \<or> prefix ''## '' line)"

text \<open>\<open>line.strip('#').strip()\<close>\<close>

definition heading_title :: "string \<Rightarrow> string" where
  "heading_title line = strip (strip_chars (\<lambda>c. c = CHR ''#'') line)"

text \<open>
  The guarded append of \<open>parse_readme_content\<close>, which occurs at a heading and after
  the loop. \<open>current_section\<close> is \<open>None\<close> or a title; Python's truth test rejects
  \<open>None\<close> and the empty title alike. The level is counted in the stored title.
\<close>

fun save_section :: "readme_section list \<Rightarrow> string option \<Rightarrow> string list \<Rightarrow> readme_section list" where
  "save_section sections None current_content = sections"
| "save_section sections (Some t) current_content =
     (if t = [] then sections
      else sections @ [\<lparr>title = t, content = join_on nl current_content,
                        level = count_list t CHR ''#''\<rparr>])"

fun parse_loop :: "string list \<Rightarrow> readme_section list \<Rightarrow> string option \<Rightarrow> string list
    \<Rightarrow> readme_section list \<times> string option \<times> string list" where
  "parse_loop [] sections current_section current_content =
     (sections, current_section, current_content)"
| "parse_loop (line # lines) sections current_section current_content =
     (if is_heading line then
        parse_loop lines (save_section sections current_section current_content)
          (Some (heading_title line)) []
      else if current_section \<noteq> None \<and> current_section \<noteq> Some [] then
        parse_loop lines sections current_section (current_content @ [line])
      else parse_loop lines sections current_section current_content)"

definition parse_readme_content :: "string \<Rightarrow> readme_section list" where
  "parse_readme_content doc =
     (case parse_loop (split_on nl doc) [] None [] of
        (sections, current_section, current_content) \<Rightarrow>
          save_section sections current_section current_content)"

text \<open>
  What the data model says of a body: the raw lines between a heading and the next one.
  \<open>chunk\<close> returns the lines in front of the first heading and, for every heading
  line, the heading with the lines that follow it up to the next heading.
\<close>

fun chunk :: "string list \<Rightarrow> string list \<times> (string \<times> string list) list" where
  "chunk [] = ([], [])"
| "chunk (l # ls) =
     (case chunk ls of
        (front, groups) \<Rightarrow>
          if is_heading l then ([], (l, front) # groups) else (l # front, groups))"

definition bodies :: "string list \<Rightarrow> string list list" where
  "bodies ls = map snd (snd (chunk ls))"

definition non_heading_lines :: "string list \<Rightarrow> string list" where
  "non_heading_lines ls = filter (\<lambda>l. \<not> is_heading l) ls"

text \<open>The lines of all section bodies, one body after the other.\<close>

definition body_lines :: "readme_section list \<Rightarrow> string list" where
  "body_lines sections = concat (map (\<lambda>s. split_on nl (content s)) sections)"

section \<open>Regular expressions of the source\<close>

text \<open>
  The source uses \<open>re\<close> with a handful of fixed patterns. Each is modelled by the
  function that the backtracking matcher computes for it.

  \<open>lazy_until dotall cls s\<close> is the lazy group \<open>(.*?)\<close> followed by the literal
  \<open>cls\<close>: the shortest prefix of \<open>s\<close> after which \<open>cls\<close> stands, with the text
  behind \<open>cls\<close>. Without \<open>DOTALL\<close> the group cannot pass a line feed.
\<close>

fun lazy_until :: "bool \<Rightarrow> string \<Rightarrow> string \<Rightarrow> (string \<times> string) option" where
  "lazy_until dotall cls [] = (if cls = [] then Some ([], []) else None)"
| "lazy_until dotall cls (c # s) =
     (if prefix cls (c # s) then Some ([], drop (length cls) (c # s))
      else if c = nl \<and> \<not> dotall then None
      else (case lazy_until dotall cls s of
              None \<Rightarrow> None
            | Some (b, r) \<Rightarrow> Some (c # b, r)))"

lemma lazy_until_length:
  "lazy_until dotall cls s = Some (b, r) \<Longrightarrow> length r \<le> length s"
  by (induction s arbitrary: b) (auto split: if_splits option.splits)

text \<open>
  \<open>re.sub\<close> for a pattern \<open>opn(.*?)cls\<close> of two literals around a lazy group: the
  text is scanned from the left, every match is replaced by its group (\<open>keep\<close>, the
  replacement \<open>\1\<close>) or by nothing, and scanning goes on behind the match.
\<close>

function sub_pair :: "bool \<Rightarrow> bool \<Rightarrow> string \<Rightarrow> string \<Rightarrow> string \<Rightarrow> string" where
  "sub_pair dotall keep opn cls [] = []"
| "sub_pair dotall keep opn cls (c # s) =
     (if opn \<noteq> [] \<and> prefix opn (c # s) then
        (case lazy_until dotall cls (drop (length opn) (c # s)) of
           None \<Rightarrow> c # sub_pair dotall keep opn cls s
         | Some (b, r) \<Rightarrow> (if keep then b else []) @ sub_pair dotall keep opn cls r)
      else c # sub_pair dotall keep opn cls s)"
  by pat_completeness auto
termination
proof (relation "measure (\<lambda>(dotall, keep, opn, cls, s). length s)")
  fix dotall keep :: bool and opn cls s :: string and c :: char and x2 b r
  assume "opn \<noteq> [] \<and> prefix opn (c # s)"
    and "lazy_until dotall cls (drop (length opn) (c # s)) = Some x2"
    and "(b, r) = x2"
  then have "length r \<le> length (drop (length opn) (c # s))" and "opn \<noteq> []"
    using lazy_until_length [of dotall cls "drop (length opn) (c # s)" b r] by auto
  then have "length r < length (c # s)"
    by (cases opn) auto
  then show "((dotall, keep, opn, cls, r), (dotall, keep, opn, cls, c # s))
      \<in> measure (\<lambda>(dotall, keep, opn, cls, s). length s)"
    by auto
qed auto

text \<open>
  \<open>re.sub\<close> for the link pattern \<open>\[(.*?)\]\(.*?\)\<close>. Where the first \<open>](\<close> on
  the line has no \<open>)\<close> behind it on that line, no later \<open>](\<close> has one either, so
  the first one decides whether the pattern matches at a bracket.
\<close>

function sub_link :: "bool \<Rightarrow> string \<Rightarrow> string" where
  "sub_link keep [] = []"
| "sub_link keep (c # s) =
     (if c = CHR ''['' then
        (case lazy_until False '']('' s of
           None \<Rightarrow> c # sub_link keep s
         | Some (b, r) \<Rightarrow>
             (case lazy_until False '')'' r of
                None \<Rightarrow> c # sub_link keep s
              | Some (u, r') \<Rightarrow> (if keep then b else []) @ sub_link keep r'))
      else c # sub_link keep s)"
  by pat_completeness auto
termination
proof (relation "measure (\<lambda>(keep, s). length s)")
  fix keep :: bool and s :: string and c :: char and x2 b r y2 u r'
  assume "lazy_until False ''](''  s = Some x2" and "(b, r) = x2"
    and "lazy_until False '')'' r = Some y2" and "(u, r') = y2"
  then have "length r \<le> length s" and "length r' \<le> length r"
    using lazy_until_length [of False "''](''" s b r]
      lazy_until_length [of False "'')''" r u r'] by auto
  then show "((keep, r'), (keep, c # s)) \<in> measure (\<lambda>(keep, s). length s)"
    by auto
qed auto

text \<open>
  The common tail \<open>\s*(.+)$\<close> of the two line patterns. \<open>group_to_end\<close> is
  \<open>(.+)$\<close>: at least one character other than a line feed, up to the end of the text
  or to a line feed that ends it. The greedy \<open>\s*\<close> first takes all the white space
  and then gives it back character by character until the group matches.
\<close>

definition group_to_end :: "string \<Rightarrow> string option" where
  "group_to_end t =
     (let p = takeWhile (\<lambda>c. c \<noteq> nl) t; r = dropWhile (\<lambda>c. c \<noteq> nl) t
      in if p \<noteq> [] \<and> (r = [] \<or> r = [nl]) then Some p else None)"

fun give_back :: "nat \<Rightarrow> string \<Rightarrow> string option" where
  "give_back 0 r = group_to_end r"
| "give_back (Suc j) r =
     (case group_to_end (drop (Suc j) r) of
        None \<Rightarrow> give_back j r
      | Some p \<Rightarrow> Some p)"

definition match_rest :: "string \<Rightarrow> string option" where
  "match_rest r = give_back (length (takeWhile is_space r)) r"

text \<open>
  \<open>re.match(r'^[\s]*[-*...]\s*(.+)$', line)\<close>, giving group 1. The class of the
  source file holds \<open>-\<close>, \<open>*\<close>, U+00E2, U+20AC and U+00A2; U+20AC is not below 256.
\<close>

definition is_bullet_glyph :: "char \<Rightarrow> bool" where
  "is_bullet_glyph c = (c \<in> set [CHR ''-'', CHR ''*'', CHR 0xE2, CHR 0xA2])"

definition bullet_match :: "string \<Rightarrow> string option" where
  "bullet_match line =
     (case dropWhile is_space line of
        [] \<Rightarrow> None
      | c # r \<Rightarrow> if is_bullet_glyph c then match_rest r else None)"

text \<open>\<open>re.match(r'^[\s]*\d+\.\s*(.+)$', line)\<close>, giving group 1.\<close>

definition is_digit :: "char \<Rightarrow> bool" where
  "is_digit c = (c \<in> set ''0123456789'')"

definition numbered_match :: "string \<Rightarrow> string option" where
  "numbered_match line =
     (let s = dropWhile is_space line
      in if takeWhile is_digit s = [] then None
         else (case dropWhile is_digit s of
                 [] \<Rightarrow> None
               | c # r \<Rightarrow> if c = CHR ''.'' then match_rest r else None))"

section \<open>Key-point extractor\<close>

text \<open>The trimmed group with bold, italic, code and link markup replaced by its text.\<close>

definition clean_point :: "string \<Rightarrow> string" where
  "clean_point g =
     sub_link True
       (sub_pair False True ''`'' ''`''
         (sub_pair False True ''*'' ''*''
           (sub_pair False True ''**'' ''**'' (strip g))))"

text \<open>One of the two loops of \<open>extract_key_points\<close>, appending to \<open>points\<close>.\<close>

fun collect :: "(string \<Rightarrow> string option) \<Rightarrow> string list \<Rightarrow> string list \<Rightarrow> string list" where
  "collect pattern [] points = points"
| "collect pattern (line # lines) points =
     (case pattern line of
        None \<Rightarrow> collect pattern lines points
      | Some g \<Rightarrow> collect pattern lines (points @ [clean_point g]))"

definition all_points :: "string \<Rightarrow> string list" where
  "all_points body =
     collect numbered_match (split_on nl body) (collect bullet_match (split_on nl body) [])"

definition extract_key_points :: "string \<Rightarrow> string list" where
  "extract_key_points body = take 8 (all_points body)"

section \<open>Code-block extractor\<close>

record code_block =
  language :: string
  code :: string

text \<open>\<open>line.strip().startswith('```')\<close>\<close>

definition is_fence :: "string \<Rightarrow> bool" where
  "is_fence line = prefix ''```'' (strip line)"

text \<open>\<open>line.strip('`').strip() or 'text'\<close>\<close>

definition fence_language :: "string \<Rightarrow> string" where
  "fence_language line =
     (let l = strip (strip_chars (\<lambda>c. c = CHR ''`'') line)
      in if l = [] then ''text'' else l)"

fun code_loop :: "string list \<Rightarrow> code_block list \<Rightarrow> bool \<Rightarrow> string list \<Rightarrow> string
    \<Rightarrow> code_block list" where
  "code_loop [] code_blocks in_code_block current_code current_language = code_blocks"
| "code_loop (line # lines) code_blocks in_code_block current_code current_language =
     (if is_fence line then
        (if in_code_block then
           code_loop lines
             (code_blocks @ [\<lparr>language = current_language, code = join_on nl current_code\<rparr>])
             False [] current_language
         else code_loop lines code_blocks True current_code (fence_language line))
      else if in_code_block then
        code_loop lines code_blocks in_code_block (current_code @ [line]) current_language
      else code_loop lines code_blocks in_code_block current_code current_language)"

definition extract_code_blocks :: "string \<Rightarrow> code_block list" where
  "extract_code_blocks body = code_loop (split_on nl body) [] False [] []"

text \<open>
  The fenced regions as the component contract words them: at an opening fence, the
  lines up to the next fence line are one region if that closing fence exists, and
  the search goes on behind it.
\<close>

function fenced :: "string list \<Rightarrow> string list list" where
  "fenced [] = []"
| "fenced (l # ls) =
     (if is_fence l then
        (case dropWhile (\<lambda>x. \<not> is_fence x) ls of
           [] \<Rightarrow> []
         | closing # rest \<Rightarrow> takeWhile (\<lambda>x. \<not> is_fence x) ls # fenced rest)
      else fenced ls)"
  by pat_completeness auto
termination
proof (relation "measure length")
  fix l :: string and ls :: "string list" and closing rest
  assume "dropWhile (\<lambda>x. \<not> is_fence x) ls = closing # rest"
  then have "length (closing # rest) \<le> length ls"
    using length_dropWhile_le [of "\<lambda>x. \<not> is_fence x" ls] by simp
  then show "(rest, l # ls) \<in> measure length" by simp
qed auto

section \<open>Table row parser\<close>

text \<open>
  The row loop of \<open>create_table_slide\<close>: a line with a pipe whose trimmed text does
  not start with \<open>|---\<close> is split at the pipes, the first and the last fragment are
  dropped (\<open>[1:-1]\<close>), the others are trimmed, and a row without a cell is skipped.
\<close>

fun table_loop :: "string list \<Rightarrow> string list list \<Rightarrow> string list list" where
  "table_loop [] table_data = table_data"
| "table_loop (line # lines) table_data =
     (if CHR ''|'' \<in> set line \<and> \<not> prefix ''|---'' (strip line) then
        (let row = map strip (butlast (tl (split_on CHR ''|'' line)))
         in if row \<noteq> [] then table_loop lines (table_data @ [row])
            else table_loop lines table_data)
      else table_loop lines table_data)"

definition table_rows :: "string \<Rightarrow> string list list" where
  "table_rows data = table_loop (split_on nl data) []"

text \<open>
  A table as its writer means it: a header row, one separator line and the data rows,
  every row written as its cells between pipes, with a leading and a trailing pipe.
\<close>

definition row_line :: "string list \<Rightarrow> string" where
  "row_line cells = CHR ''|'' # join_on CHR ''|'' cells @ ''|''"

definition table_text :: "string list \<Rightarrow> string \<Rightarrow> string list list \<Rightarrow> string" where
  "table_text header separator rows =
     join_on nl (row_line header # separator # map row_line rows)"

section \<open>Slides\<close>

text \<open>
  The presentation object is the list of the slides added so far. A content slide holds
  bullet paragraphs or one text paragraph; a table slide holds its grid, or nothing
  when no table shape was added; a code slide holds the block it shows.
\<close>

datatype payload = Bullets "string list" | Text string

datatype slide =
    TitleSlide string string
  | ContentSlide string payload
  | TableSlide string "string list list option"
  | CodeSlide string code_block

definition create_title_slide :: "slide list \<Rightarrow> string \<Rightarrow> string \<Rightarrow> slide list" where
  "create_title_slide prs ttl subtitle = prs @ [TitleSlide ttl subtitle]"

text \<open>
  The source calls \<open>create_content_slide\<close> with a list and \<open>"bullet"\<close> or with a
  string and \<open>"text"\<close>, so the form of the payload decides its branch.
\<close>

definition create_content_slide :: "slide list \<Rightarrow> string \<Rightarrow> payload \<Rightarrow> slide list" where
  "create_content_slide prs ttl body = prs @ [ContentSlide ttl body]"

text \<open>
  \<open>create_table_slide\<close> adds the slide and its title box first and parses the rows
  afterwards. The table shape has as many columns as the first row has cells; cells
  beyond that are not written, and cells a short row does not reach stay empty.
\<close>

definition fill_row :: "nat \<Rightarrow> string list \<Rightarrow> string list" where
  "fill_row cols row = take cols row @ replicate (cols - length row) []"

definition create_table_slide :: "slide list \<Rightarrow> string \<Rightarrow> string \<Rightarrow> slide list" where
  "create_table_slide prs ttl data =
     (let table_data = table_rows data
      in prs @ [TableSlide ttl
           (if table_data \<noteq> [] \<and> 1 < length table_data
            then Some (map (fill_row (length (hd table_data))) table_data)
            else None)])"

definition create_code_slide :: "slide list \<Rightarrow> string \<Rightarrow> code_block \<Rightarrow> slide list" where
  "create_code_slide prs ttl cb = prs @ [CodeSlide ttl cb]"

section \<open>Slide planner\<close>

text \<open>\<open>str.lower\<close> on code points below 256.\<close>

definition lower_char :: "char \<Rightarrow> char" where
  "lower_char c =
     (let n = (of_char c :: nat)
      in if (65 \<le> n \<and> n \<le> 90) \<or> (192 \<le> n \<and> n \<le> 222 \<and> n \<noteq> 215)
         then char_of (n + 32) else c)"

definition lower :: "string \<Rightarrow> string" where
  "lower s = map lower_char s"

definition allow_list :: "string list" where
  "allow_list = [''api endpoints'', ''core components'', ''project structure'']"

text \<open>\<open>'|' in content and '---' in content\<close>\<close>

definition has_table :: "string \<Rightarrow> bool" where
  "has_table body = (CHR ''|'' \<in> set body \<and> sublist ''---'' body)"

text \<open>The preview of the free-text slide.\<close>

definition preview_content :: "string \<Rightarrow> string" where
  "preview_content body =
     (let clean_content =
            filter (\<lambda>c. c \<notin> set ''#*`'')
              (sub_link False (sub_pair True False ''```'' ''```'' body));
          lines = filter (\<lambda>l. l \<noteq> []) (map strip (split_on nl clean_content))
      in if 3 < length lines then join_on CHR '' '' (take 3 lines) @ ''...''
         else join_on CHR '' '' lines)"

text \<open>
  The body of the loop over the sections. \<open>title_case\<close> stands for \<open>str.title\<close>,
  whose results leave the code points below 256.
\<close>

definition process_section :: "(string \<Rightarrow> string) \<Rightarrow> slide list \<Rightarrow> readme_section \<Rightarrow> slide list" where
  "process_section title_case prs sec =
     (if length (strip (content sec)) < 50 then prs
      else
        (let key_points = extract_key_points (content sec);
             code_blocks = extract_code_blocks (content sec)
         in if lower (title sec) \<in> set allow_list then
              (if has_table (content sec) then create_table_slide prs (title sec) (content sec)
               else create_content_slide prs (title sec)
                      (Bullets (if key_points \<noteq> [] then key_points
                                else [''Content details in documentation''])))
            else if code_blocks \<noteq> [] then
              (let prs' = foldl (\<lambda>p cb. create_code_slide p
                             (title sec @ '' - '' @ title_case (language cb) @ '' Code'') cb)
                           prs (take 2 code_blocks)
               in if key_points \<noteq> [] then create_content_slide prs' (title sec) (Bullets key_points)
                  else prs')
            else if key_points \<noteq> [] then
              create_content_slide prs (title sec) (Bullets key_points)
            else create_content_slide prs (title sec) (Text (preview_content (content sec)))))"

text \<open>
  \<open>s.replace(g, '')\<close>: the occurrences of \<open>g\<close> are removed from the left. It is
  stated for lists over any alphabet, since the literal that the source removes is not
  made of code points below 256.
\<close>

function str_remove :: "'a list \<Rightarrow> 'a list \<Rightarrow> 'a list" where
  "str_remove g [] = []"
| "str_remove g (c # s) =
     (if g \<noteq> [] \<and> prefix g (c # s) then str_remove g (drop (length g) (c # s))
      else c # str_remove g s)"
  by pat_completeness auto
termination
proof (relation "measure (\<lambda>(g, s). length s)")
  fix g s :: "'a list" and c :: 'a
  assume "g \<noteq> [] \<and> prefix g (c # s)"
  then have "length (drop (length g) (c # s)) < length (c # s)"
    by (cases g) auto
  then show "((g, drop (length g) (c # s)), (g, c # s)) \<in> measure (\<lambda>(g, s). length s)"
    by simp
qed auto

text \<open>
  The literal of \<open>sections[0]['title'].replace(..., '')\<close> as the source file holds
  it: the four code points U+011F, U+0178, U+0161 and U+20AC. They are what the bytes
  of the rocket U+1F680 give when read in code page 1254; the rocket itself is not in
  the literal.
\<close>

definition glyph_literal :: "nat list" where
  "glyph_literal = [0x11F, 0x178, 0x161, 0x20AC]"

text \<open>
  \<open>sections[0]['title'].replace(..., '').strip()\<close>: the title is taken to its code
  points, the literal is removed there, and the result is read back and trimmed.
\<close>

definition project_title_of :: "string \<Rightarrow> string" where
  "project_title_of t =
     strip (map char_of (str_remove glyph_literal (map (of_char :: char \<Rightarrow> nat) t)))"

definition default_title :: string where
  "default_title = ''Helix Tag Manager''"

definition default_subtitle :: string where
  "default_subtitle =
     ''A powerful Django application for migrating Adobe Helix V1 components to V2''"

text \<open>
  What a run of \<open>generate_ppt_from_readme\<close> leaves: the value it returns (\<open>None\<close>
  after either error message), the slides rendered into the presentation object, and
  the file written, if one was.
\<close>

record outcome =
  returned :: "string option"
  rendered :: "slide list"
  saved :: "(string \<times> slide list) option"

text \<open>\<open>save_ok\<close> tells whether \<open>prs.save\<close> returns or raises.\<close>

definition generate_ppt_from_readme ::
  "(string \<Rightarrow> string) \<Rightarrow> (slide list \<Rightarrow> string \<Rightarrow> bool) \<Rightarrow> string \<Rightarrow> string \<Rightarrow> outcome" where
  "generate_ppt_from_readme title_case save_ok readme_content output_filename =
     (let sections = parse_readme_content readme_content
      in if sections = [] then \<lparr>returned = None, rendered = [], saved = None\<rparr>
         else
           (let project_title =
                  (if title (hd sections) \<noteq> [] then project_title_of (title (hd sections))
                   else default_title);
                prs = foldl (process_section title_case)
                        (create_title_slide [] project_title default_subtitle) sections
            in if save_ok prs output_filename
               then \<lparr>returned = Some output_filename, rendered = prs,
                      saved = Some (output_filename, prs)\<rparr>
               else \<lparr>returned = None, rendered = prs, saved = None\<rparr>))"

section \<open>Properties of the section segmenter\<close>

lemma split_on_not_Nil: "split_on c s \<noteq> []"
  by (induction s) (auto split: list.splits)

lemma split_on_no_sep: "l \<in> set (split_on c s) \<Longrightarrow> c \<notin> set l"
  by (induction s arbitrary: l) (auto simp: split_on_not_Nil split: list.splits if_splits)

lemma chunk_fst: "fst (chunk ls) = takeWhile (\<lambda>l. \<not> is_heading l) ls"
  by (induction ls) (auto split: prod.splits)

lemma bodies_Nil: "bodies [] = []"
  by (simp add: bodies_def)

lemma bodies_Cons:
  "bodies (l # ls) = (if is_heading l then fst (chunk ls) # bodies ls else bodies ls)"
  by (simp add: bodies_def split: prod.splits)

lemma chunk_all: "fst (chunk ls) @ concat (bodies ls) = non_heading_lines ls"
  by (induction ls)
    (auto simp: bodies_Cons bodies_Nil non_heading_lines_def split: prod.splits)

lemma concat_bodies:
  "concat (bodies ls) = non_heading_lines (dropWhile (\<lambda>l. \<not> is_heading l) ls)"
proof (induction ls)
  case Nil
  show ?case by (simp add: bodies_def non_heading_lines_def)
next
  case (Cons l ls)
  show ?case
  proof (cases "is_heading l")
    case True
    then show ?thesis
      using chunk_all [of ls] by (simp add: bodies_Cons non_heading_lines_def)
  next
    case False
    then show ?thesis using Cons by (simp add: bodies_Cons)
  qed
qed

text \<open>
  The loop, started in any state whose open title is not empty, closes the open section
  with the lines up to the next heading and then yields one section per heading.
\<close>

lemma parse_loop_bodies:
  assumes "\<forall>l \<in> set ls. is_heading l \<longrightarrow> heading_title l \<noteq> []"
    and "cs \<noteq> Some []"
  shows "map content (case parse_loop ls secs cs cc of (a, b, c) \<Rightarrow> save_section a b c)
    = map content (save_section secs cs (cc @ fst (chunk ls))) @ map (join_on nl) (bodies ls)"
  using assms
proof (induction ls arbitrary: secs cs cc)
  case Nil
  then show ?case by (simp add: bodies_def)
next
  case (Cons l ls)
  show ?case
  proof (cases "is_heading l")
    case True
    with Cons.prems have t: "heading_title l \<noteq> []" by simp
    have "map content (case parse_loop ls (save_section secs cs cc) (Some (heading_title l)) [] of
        (a, b, c) \<Rightarrow> save_section a b c)
      = map content (save_section (save_section secs cs cc) (Some (heading_title l))
          ([] @ fst (chunk ls))) @ map (join_on nl) (bodies ls)"
      using Cons.prems t by (intro Cons.IH) auto
    with True t show ?thesis
      by (simp add: bodies_Cons split: prod.splits)
  next
    case False
    show ?thesis
    proof (cases cs)
      case None
      with False Cons show ?thesis by (simp add: bodies_Cons split: prod.splits)
    next
      case (Some t)
      with Cons.prems have "t \<noteq> []" by simp
      have "map content (case parse_loop ls secs cs (cc @ [l]) of (a, b, c) \<Rightarrow> save_section a b c)
        = map content (save_section secs cs ((cc @ [l]) @ fst (chunk ls)))
          @ map (join_on nl) (bodies ls)"
        using Cons.prems by (intro Cons.IH) auto
      with False Some \<open>t \<noteq> []\<close> show ?thesis
        by (simp add: bodies_Cons split: prod.splits)
    qed
  qed
qed

text \<open>
  Claim C1, as amended. In a document whose heading lines all carry a title that is
  not empty, the section bodies are, in order, the joined lines between each heading
  and the next, and these lines together are exactly the non-heading lines that follow
  the first heading, each once and in document order. The lines in front of the first
  heading belong to no section.
\<close>

theorem section_bodies_after_first_heading:
  assumes "\<forall>l \<in> set (split_on nl doc). is_heading l \<longrightarrow> heading_title l \<noteq> []"
  shows "map content (parse_readme_content doc) = map (join_on nl) (bodies (split_on nl doc))
    \<and> concat (bodies (split_on nl doc))
        = non_heading_lines (dropWhile (\<lambda>l. \<not> is_heading l) (split_on nl doc))"
  using parse_loop_bodies [OF assms, of None "[]" "[]"] concat_bodies [of "split_on nl doc"]
  by (simp add: parse_readme_content_def)

theorem section_bodies_after_first_heading_witness:
  "map content (parse_readme_content ''intro\<newline># A\<newline>x\<newline>\<newline>## B\<newline>y'')
     = map (join_on nl) (bodies (split_on nl ''intro\<newline># A\<newline>x\<newline>\<newline>## B\<newline>y''))
   \<and> concat (bodies (split_on nl ''intro\<newline># A\<newline>x\<newline>\<newline>## B\<newline>y''))
     = non_heading_lines (dropWhile (\<lambda>l. \<not> is_heading l)
         (split_on nl ''intro\<newline># A\<newline>x\<newline>\<newline>## B\<newline>y''))"
proof -
  have h: "\<forall>l \<in> set (split_on nl ''intro\<newline># A\<newline>x\<newline>\<newline>## B\<newline>y'').
      is_heading l \<longrightarrow> heading_title l \<noteq> []"
    by code_simp
  show ?thesis
    by (rule section_bodies_after_first_heading [OF h])
qed

text \<open>
  Claim C1 as the specification words it fails where text stands in front of the first
  heading: the document \<open>intro / # A / x\<close> has the non-heading lines \<open>intro\<close> and
  \<open>x\<close>, and the only body holds \<open>x\<close>.
\<close>

theorem preamble_line_lost:
  "body_lines (parse_readme_content ''intro\<newline># A\<newline>x'')
     \<noteq> non_heading_lines (split_on nl ''intro\<newline># A\<newline>x'')"
  by code_simp

text \<open>
  Claim C7 asks for level 2 at a heading written with \<open>##\<close>. The source counts the
  marker in the title from which the markers are already stripped, so the section of
  \<open>## Setup\<close> has level 0.
\<close>

theorem level_counted_in_stripped_title:
  "parse_readme_content ''## Setup'' = [\<lparr>title = ''Setup'', content = [], level = 0\<rparr>]"
  by code_simp

section \<open>Properties of the code-block extractor\<close>

text \<open>
  The loop in its two states. Outside a block it yields the fenced regions of the
  lines still to come; inside a block it first needs the closing fence, and the region
  it then closes consists of the lines gathered so far and those up to that fence.
\<close>

lemma code_loop_fenced:
  "(\<forall>blocks lang. map code (code_loop ls blocks False [] lang)
      = map code blocks @ map (join_on nl) (fenced ls))
   \<and> (\<forall>blocks cc lang. map code (code_loop ls blocks True cc lang)
      = map code blocks @
        (case dropWhile (\<lambda>x. \<not> is_fence x) ls of
           [] \<Rightarrow> []
         | closing # rest \<Rightarrow>
             join_on nl (cc @ takeWhile (\<lambda>x. \<not> is_fence x) ls) # map (join_on nl) (fenced rest)))"
proof (induction ls)
  case Nil
  show ?case by simp
next
  case (Cons l ls)
  show ?case
  proof (cases "is_fence l")
    case True
    show ?thesis
    proof (cases "dropWhile (\<lambda>x. \<not> is_fence x) ls")
      case Nil
      have "dropWhile (\<lambda>x. \<not> is_fence x) ls = []" by (fact Nil)
      note d = this
      from Cons.IH True show ?thesis by (simp add: d)
    next
      case (Cons closing rest)
      have "dropWhile (\<lambda>x. \<not> is_fence x) ls = closing # rest" by (fact Cons)
      note d = this
      from Cons.IH True show ?thesis by (simp add: d)
    qed
  next
    case False
    with Cons show ?thesis by (simp cong: list.case_cong)
  qed
qed

lemma code_loop_length:
  "(\<forall>blocks cc lang. length (code_loop ls blocks False cc lang)
      = length blocks + length (filter is_fence ls) div 2)
   \<and> (\<forall>blocks cc lang. length (code_loop ls blocks True cc lang)
      = length blocks + Suc (length (filter is_fence ls)) div 2)"
  by (induction ls) auto

text \<open>
  Claim C3. The code texts of the blocks that \<open>extract_code_blocks\<close> returns are, in
  order, the joined lines of the fenced regions (the lines between an opening fence
  and the next fence line, blank lines and white space as they stand), and the number
  of blocks is half the number of fence lines, rounded down: a last opening fence
  without a closing one adds no block.
\<close>

theorem code_blocks_are_fenced_regions:
  "map code (extract_code_blocks body) = map (join_on nl) (fenced (split_on nl body))
   \<and> length (extract_code_blocks body) = length (filter is_fence (split_on nl body)) div 2"
  using code_loop_fenced [of "split_on nl body"] code_loop_length [of "split_on nl body"]
  by (simp add: extract_code_blocks_def)

section \<open>Properties of the key-point extractor\<close>

lemma collect_map_filter:
  "collect pattern ls points = points @ map clean_point (List.map_filter pattern ls)"
  by (induction ls arbitrary: points) (auto split: option.splits)

text \<open>
  Claim C9. Before the cut to eight, the key points are the cleaned matches of the
  bullet pattern over all lines in source order, followed by the cleaned matches of
  the numbered pattern over all lines in source order.
\<close>

theorem bullets_before_numbers:
  "all_points body
     = map clean_point (List.map_filter bullet_match (split_on nl body))
       @ map clean_point (List.map_filter numbered_match (split_on nl body))
   \<and> extract_key_points body = take 8 (all_points body)"
  by (simp add: all_points_def extract_key_points_def collect_map_filter)

lemma split_on_single: "c \<notin> set s \<Longrightarrow> split_on c s = [s]"
  by (induction s) auto

lemma sub_pair_id: "hd opn \<notin> set s \<Longrightarrow> sub_pair dotall keep opn cls s = s"
  by (induction s) (auto simp: prefix_def neq_Nil_conv)


lemma strip_chars_id:
  assumes "\<not> P (hd s)" and "\<not> P (last s)"
  shows "strip_chars P s = s"
proof -
  have a: "dropWhile P s = s"
    using assms by (simp add: dropWhile_eq_self_iff)
  have b: "dropWhile P (rev s) = rev s"
    using assms by (simp add: dropWhile_eq_self_iff hd_rev)
  show ?thesis by (simp add: strip_chars_def a b)
qed





section \<open>Properties of the conversion\<close>

lemma parse_loop_no_heading:
  "\<forall>l \<in> set ls. \<not> is_heading l \<Longrightarrow> parse_loop ls secs None cc = (secs, None, cc)"
  by (induction ls) auto

text \<open>
  Claim C8. A document without a heading line makes the conversion fail: it returns
  no output path, no slide is rendered and no file is saved.
\<close>

theorem no_heading_is_failure:
  assumes "\<forall>l \<in> set (split_on nl readme_content). \<not> is_heading l"
  shows "generate_ppt_from_readme title_case save_ok readme_content output_filename
    = \<lparr>returned = None, rendered = [], saved = None\<rparr>"
  using parse_loop_no_heading [OF assms]
  by (simp add: generate_ppt_from_readme_def parse_readme_content_def)

theorem no_heading_is_failure_witness:
  "generate_ppt_from_readme (\<lambda>s. s) (\<lambda>prs f. True) ''plain text\<newline>#no heading'' ''deck.pptx''
    = \<lparr>returned = None, rendered = [], saved = None\<rparr>"
proof -
  have h: "\<forall>l \<in> set (split_on nl ''plain text\<newline>#no heading''). \<not> is_heading l"
    by code_simp
  show ?thesis by (rule no_heading_is_failure [OF h])
qed

text \<open>
  Claim C5, as amended. For a section whose title is on the allow-list, whose body is
  table-bearing and has at least 50 characters after trimming, and whose parsed table
  keeps fewer than two rows, the planner still appends exactly one slide: the table
  slide with its title and without a table shape. No other slide type is used instead.
\<close>

theorem short_table_still_adds_slide:
  assumes "lower (title sec) \<in> set allow_list"
    and "has_table (content sec)"
    and "50 \<le> length (strip (content sec))"
    and "length (table_rows (content sec)) < 2"
  shows "process_section title_case prs sec = prs @ [TableSlide (title sec) None]"
  using assms by (simp add: process_section_def create_table_slide_def Let_def)

theorem short_table_still_adds_slide_witness:
  "process_section (\<lambda>s. s) []
     \<lparr>title = ''API Endpoints'',
      content = ''This section has a table with only a header row in it.\<newline>| a | b |\<newline>|---|---|'',
      level = 0\<rparr>
   = [] @ [TableSlide (title \<lparr>title = ''API Endpoints'',
      content = ''This section has a table with only a header row in it.\<newline>| a | b |\<newline>|---|---|'',
      level = 0\<rparr>) None]"
proof -
  let ?sec = "\<lparr>title = ''API Endpoints'',
      content = ''This section has a table with only a header row in it.\<newline>| a | b |\<newline>|---|---|'',
      level = 0\<rparr>"
  have a: "lower (title ?sec) \<in> set allow_list" by code_simp
  have b: "has_table (content ?sec)" by code_simp
  have c: "50 \<le> length (strip (content ?sec))" by code_simp
  have d: "length (table_rows (content ?sec)) < 2" by code_simp
  show ?thesis by (rule short_table_still_adds_slide [OF a b c d])
qed

text \<open>
  Claim C5 as the specification words it fails: the table of this section keeps one
  row, and the deck nevertheless receives the slide planned as its table slide.
\<close>

theorem header_only_table_gets_slide:
  "table_rows ''This section has a table with only a header row in it.\<newline>| a | b |\<newline>|---|---|''
     = [[''a'', ''b'']]
   \<and> rendered (generate_ppt_from_readme (\<lambda>s. s) (\<lambda>prs f. True)
       ''# API Endpoints\<newline>This section has a table with only a header row in it.\<newline>| a | b |\<newline>|---|---|''
       ''deck.pptx'')
     = [TitleSlide ''API Endpoints''
          ''A powerful Django application for migrating Adobe Helix V1 components to V2'',
        TableSlide ''API Endpoints'' None]"
  by code_simp

text \<open>Every section that the segmenter returns has a title that is not empty.\<close>

lemma save_section_titles:
  "\<forall>s \<in> set secs. title s \<noteq> [] \<Longrightarrow> \<forall>s \<in> set (save_section secs cs cc). title s \<noteq> []"
  by (cases cs) auto

lemma parse_loop_titles:
  "\<forall>s \<in> set secs. title s \<noteq> [] \<Longrightarrow> parse_loop ls secs cs cc = (a, b, c)
    \<Longrightarrow> \<forall>s \<in> set a. title s \<noteq> []"
proof (induction ls arbitrary: secs cs cc)
  case Nil
  then show ?case by simp
next
  case (Cons l ls)
  show ?case
  proof (cases "is_heading l")
    case True
    with Cons.prems have "parse_loop ls (save_section secs cs cc) (Some (heading_title l)) [] = (a, b, c)"
      by simp
    with save_section_titles [OF Cons.prems(1)] show ?thesis
      by (rule Cons.IH)
  next
    case False
    with Cons.prems have "parse_loop ls secs cs (cc @ [l]) = (a, b, c)
        \<or> parse_loop ls secs cs cc = (a, b, c)"
      by (simp split: if_splits)
    with Cons.prems(1) Cons.IH show ?thesis by blast
  qed
qed

lemma parse_titles: "s \<in> set (parse_readme_content doc) \<Longrightarrow> title s \<noteq> []"
proof -
  assume s: "s \<in> set (parse_readme_content doc)"
  obtain a b c where p: "parse_loop (split_on nl doc) [] None [] = (a, b, c)"
    by (cases "parse_loop (split_on nl doc) [] None []") auto
  then have "\<forall>s \<in> set a. title s \<noteq> []"
    using parse_loop_titles [of "[]"] by simp
  then have "\<forall>s \<in> set (save_section a b c). title s \<noteq> []"
    by (rule save_section_titles)
  with s p show ?thesis by (simp add: parse_readme_content_def)
qed

text \<open>The planner only appends slides.\<close>

lemma code_slides_prefix:
  "prefix prs (foldl (\<lambda>p cb. create_code_slide p (f cb) cb) prs cbs)"
proof (induction cbs arbitrary: prs)
  case Nil
  show ?case by simp
next
  case (Cons cb cbs)
  have "prefix prs (create_code_slide prs (f cb) cb)"
    by (simp add: create_code_slide_def)
  then show ?case
    using Cons [of "create_code_slide prs (f cb) cb"] by (auto intro: prefix_order.trans)
qed

lemma process_section_prefix: "prefix prs (process_section title_case prs sec)"
proof -
  have "prefix prs (foldl (\<lambda>p cb. create_code_slide p
      (title sec @ '' - '' @ title_case (language cb) @ '' Code'') cb) prs cbs)" for cbs
    by (rule code_slides_prefix)
  moreover have "prefix prs q \<Longrightarrow> prefix prs (create_content_slide q t b)" for q t b
    by (auto simp: create_content_slide_def prefix_def)
  ultimately show ?thesis
    by (simp add: process_section_def create_table_slide_def Let_def)
qed

lemma sections_prefix: "prefix prs (foldl (process_section title_case) prs secs)"
proof (induction secs arbitrary: prs)
  case Nil
  show ?case by simp
next
  case (Cons sec secs)
  show ?case
    using process_section_prefix [of prs title_case sec]
      Cons [of "process_section title_case prs sec"]
    by (auto intro: prefix_order.trans)
qed

text \<open>
  No code point of a modelled title is one of the literal, so the replacement returns
  such a title as it is.
\<close>

lemma str_remove_id: "g \<noteq> [] \<Longrightarrow> hd g \<notin> set s \<Longrightarrow> str_remove g s = s"
  by (induction s) (auto simp: prefix_def neq_Nil_conv)

lemma of_char_below_256: "(of_char c :: nat) < 256"
proof -
  have "(of_char c :: nat) mod 256 < 256" by simp
  then show ?thesis by (simp only: of_char_mod_256)
qed

lemma project_title_plain: "project_title_of t = strip t"
proof -
  have below: "n < 256" if "n \<in> set (map (of_char :: char \<Rightarrow> nat) t)" for n
    using that of_char_below_256 by auto
  have "hd glyph_literal = (287 :: nat)"
    by (simp add: glyph_literal_def)
  moreover have "(287 :: nat) \<notin> set (map (of_char :: char \<Rightarrow> nat) t)"
    using below [of 287] by auto
  ultimately have "hd glyph_literal \<notin> set (map (of_char :: char \<Rightarrow> nat) t)"
    by simp
  then have "str_remove glyph_literal (map (of_char :: char \<Rightarrow> nat) t) = map of_char t"
    by (intro str_remove_id) (simp_all add: glyph_literal_def)
  then show ?thesis by (simp add: project_title_of_def)
qed

text \<open>
  The literal is not the rocket: a title of the code points U+1F680, blank, \<open>D\<close>
  passes the replacement unchanged, so the source leaves a rocket in the title.
\<close>

lemma rocket_stays_in_title:
  "str_remove glyph_literal [0x1F680, 0x20, 0x44] = [0x1F680, 0x20, 0x44]"
  by (simp add: glyph_literal_def)

text \<open>
  Claim C6, as amended. A document with at least one section gets a deck that starts
  with the title slide; its title is the title of the first section, trimmed, and its
  subtitle is the fixed subtitle whatever the section holds. A document without a
  section gets no slide at all, so the fixed title is never shown. The statement is
  about titles of code points below 256 and says nothing of a rocket in the title.
\<close>

theorem title_slide_from_first_section:
  "take 1 (rendered (generate_ppt_from_readme title_case save_ok doc output_filename))
    = (case parse_readme_content doc of
         [] \<Rightarrow> []
       | first # others \<Rightarrow> [TitleSlide (strip (title first)) default_subtitle])"
proof (cases "parse_readme_content doc")
  case Nil
  then show ?thesis by (simp add: generate_ppt_from_readme_def)
next
  case (Cons first others)
  then have t: "title first \<noteq> []"
    using parse_titles [of first doc] by simp
  let ?start = "[TitleSlide (strip (title first)) default_subtitle]"
  have "prefix ?start (foldl (process_section title_case) ?start (first # others))"
    by (rule sections_prefix)
  then obtain more where "foldl (process_section title_case) ?start (first # others) = ?start @ more"
    by (auto simp: prefix_def)
  with Cons t show ?thesis
    by (simp add: generate_ppt_from_readme_def create_title_slide_def Let_def
        project_title_plain)
qed

text \<open>
  Claim C6 as the specification words it fails twice: the subtitle of a document with
  a section is the fixed one, not one taken from the section, and the empty document
  gets no title slide, so the fixed pair is not used for it.
\<close>

theorem subtitle_fixed_and_no_fallback:
  "rendered (generate_ppt_from_readme (\<lambda>s. s) (\<lambda>prs f. True) ''# Demo\<newline>A tool.'' ''deck.pptx'')
     = [TitleSlide ''Demo''
          ''A powerful Django application for migrating Adobe Helix V1 components to V2'']
   \<and> rendered (generate_ppt_from_readme (\<lambda>s. s) (\<lambda>prs f. True) [] ''deck.pptx'') = []"
  by code_simp

section \<open>Properties of the table row parser\<close>

lemma split_on_sep_Cons: "split_on c (c # s) = [] # split_on c s"
proof (cases "split_on c s")
  case Nil
  then show ?thesis using split_on_not_Nil [of c s] by simp
next
  case (Cons f fs)
  then show ?thesis by simp
qed

lemma split_on_append: "c \<notin> set p \<Longrightarrow> split_on c (p @ c # s) = p # split_on c s"
proof (induction p)
  case Nil
  show ?case by (simp add: split_on_sep_Cons del: split_on.simps)
next
  case (Cons x p)
  then show ?case by auto
qed

lemma split_on_join:
  "ls \<noteq> [] \<Longrightarrow> \<forall>l \<in> set ls. c \<notin> set l \<Longrightarrow> split_on c (join_on c ls) = ls"
  by (induction c ls rule: join_on.induct) (auto simp: split_on_single split_on_append)

lemma split_on_join_sep:
  "ls \<noteq> [] \<Longrightarrow> \<forall>l \<in> set ls. c \<notin> set l \<Longrightarrow> split_on c (join_on c ls @ [c]) = ls @ [[]]"
proof (induction c ls rule: join_on.induct)
  case (1 c)
  then show ?case by simp
next
  case (2 c p)
  then show ?case using split_on_append [of c p "[]"] by simp
next
  case (3 c p q ps)
  then show ?case using split_on_append [of c p "join_on c (q # ps) @ [c]"] by simp
qed

lemma join_on_set: "set (join_on c ls) \<subseteq> insert c (\<Union>(set ` set ls))"
  by (induction c ls rule: join_on.induct) auto

lemma join_on_hd: "ls \<noteq> [] \<Longrightarrow> \<exists>rest. join_on c ls @ [c] = hd ls @ c # rest"
  by (induction c ls rule: join_on.induct) auto

lemma not_prefix_dashes:
  assumes "\<not> prefix ''---'' a"
  shows "\<not> prefix ''---'' (a @ CHR ''|'' # b)"
proof (cases a)
  case Nil
  then show ?thesis by simp
next
  case c1: (Cons x1 a1)
  show ?thesis
  proof (cases a1)
    case Nil
    with c1 show ?thesis by simp
  next
    case c2: (Cons x2 a2)
    show ?thesis
    proof (cases a2)
      case Nil
      with c1 c2 show ?thesis by simp
    next
      case (Cons x3 a3)
      with c1 c2 assms show ?thesis by simp
    qed
  qed
qed

lemma row_line_cells:
  assumes "r \<noteq> []" and "\<forall>c \<in> set r. CHR ''|'' \<notin> set c"
  shows "butlast (tl (split_on CHR ''|'' (row_line r))) = r"
proof -
  have "split_on CHR ''|'' (row_line r) = [] # r @ [[]]"
    unfolding row_line_def using split_on_join_sep [OF assms]
    by (simp add: split_on_sep_Cons del: split_on.simps)
  then show ?thesis by simp
qed

lemma row_line_kept:
  assumes "r \<noteq> []" and "\<not> prefix ''---'' (hd r)"
  shows "\<not> prefix ''|---'' (strip (row_line r))"
proof -
  have "strip (row_line r) = row_line r"
    unfolding strip_def by (rule strip_chars_id) (simp_all add: row_line_def is_space_def)
  moreover obtain rest where "join_on CHR ''|'' r @ ''|'' = hd r @ CHR ''|'' # rest"
    using join_on_hd [OF assms(1)] by blast
  ultimately show ?thesis
    using not_prefix_dashes [OF assms(2)] by (simp add: row_line_def)
qed

lemma table_loop_rows:
  assumes "\<forall>r \<in> set rs. r \<noteq> [] \<and> (\<forall>c \<in> set r. CHR ''|'' \<notin> set c) \<and> \<not> prefix ''---'' (hd r)"
  shows "table_loop (map row_line rs) acc = acc @ map (map strip) rs"
  using assms
proof (induction rs arbitrary: acc)
  case Nil
  show ?case by simp
next
  case (Cons r rs)
  then have r: "r \<noteq> []" "\<forall>c \<in> set r. CHR ''|'' \<notin> set c" "\<not> prefix ''---'' (hd r)"
    by auto
  have "CHR ''|'' \<in> set (row_line r)" by (simp add: row_line_def)
  moreover have "\<not> prefix ''|---'' (strip (row_line r))"
    using r(1) r(3) by (rule row_line_kept)
  moreover have "map strip (butlast (tl (split_on CHR ''|'' (row_line r)))) = map strip r"
    using row_line_cells [OF r(1) r(2)] by simp
  ultimately have "table_loop (map row_line (r # rs)) acc
      = table_loop (map row_line rs) (acc @ [map strip r])"
    using r(1) by (simp add: Let_def)
  also have "\<dots> = (acc @ [map strip r]) @ map (map strip) rs"
    using Cons.prems by (intro Cons.IH) auto
  finally show ?case by simp
qed

lemma row_line_no_nl: "\<forall>c \<in> set r. nl \<notin> set c \<Longrightarrow> nl \<notin> set (row_line r)"
  using join_on_set [of "CHR ''|''" r] by (auto simp: row_line_def)

text \<open>
  Claim C4, as amended. Take a table text made of a header row of at least one cell, a
  separator line whose trimmed text starts with \<open>|---\<close>, and data rows that each
  have as many cells as the header, every row written with a leading and a trailing
  pipe, no cell holding a pipe or a line feed, and no row whose first cell starts with
  three hyphens. Then the parser returns the trimmed cells of the header and of every
  data row, in order: one row more than there are data rows, each with as many cells
  as the header, and the separator is not among them.
\<close>

theorem table_rows_of_table:
  assumes "header \<noteq> []"
    and "\<forall>r \<in> set rows. length r = length header"
    and "\<forall>r \<in> set (header # rows). \<forall>c \<in> set r. CHR ''|'' \<notin> set c \<and> nl \<notin> set c"
    and "\<forall>r \<in> set (header # rows). \<not> prefix ''---'' (hd r)"
    and "nl \<notin> set separator"
    and "prefix ''|---'' (strip separator)"
  shows "table_rows (table_text header separator rows) = map (map strip) (header # rows)
    \<and> length (table_rows (table_text header separator rows)) = length rows + 1
    \<and> (\<forall>row \<in> set (table_rows (table_text header separator rows)). length row = length header)"
proof -
  let ?lines = "row_line header # separator # map row_line rows"
  have "nl \<notin> set (row_line r)" if "r \<in> set (header # rows)" for r
    using that assms(3) by (intro row_line_no_nl) auto
  then have "\<forall>l \<in> set ?lines. nl \<notin> set l"
    using assms(5) by auto
  then have lines: "split_on nl (table_text header separator rows) = ?lines"
    unfolding table_text_def by (intro split_on_join) auto
  have good: "\<forall>r \<in> set (header # rows).
      r \<noteq> [] \<and> (\<forall>c \<in> set r. CHR ''|'' \<notin> set c) \<and> \<not> prefix ''---'' (hd r)"
    using assms(1-4) by auto
  then have h: "table_loop (map row_line [header]) [] = [] @ map (map strip) [header]"
    by (intro table_loop_rows) auto
  have "table_loop ?lines [] = table_loop (separator # map row_line rows) [map strip header]"
    using h good by (auto simp: Let_def split: if_splits)
  also have "\<dots> = table_loop (map row_line rows) [map strip header]"
    using assms(6) by simp
  also have "\<dots> = [map strip header] @ map (map strip) rows"
    using good by (intro table_loop_rows) auto
  finally have eq: "table_rows (table_text header separator rows) = map (map strip) (header # rows)"
    by (simp add: table_rows_def lines)
  show ?thesis
    using assms(2) by (auto simp: eq)
qed

theorem table_rows_of_table_witness:
  "table_rows (table_text [''Name'', ''Type''] ''|------|------|'' [[''id'', '' int ''], [''tag'', ''text'']])
     = map (map strip) ([''Name'', ''Type''] # [[''id'', '' int ''], [''tag'', ''text'']])
   \<and> length (table_rows (table_text [''Name'', ''Type''] ''|------|------|''
        [[''id'', '' int ''], [''tag'', ''text'']]))
     = length [[''id'', '' int ''], [''tag'', ''text'']] + 1"
proof -
  let ?h = "[''Name'', ''Type'']" and ?s = "''|------|------|''"
    and ?r = "[[''id'', '' int ''], [''tag'', ''text'']]"
  have a: "?h \<noteq> []" by simp
  have b: "\<forall>r \<in> set ?r. length r = length ?h" by simp
  have c: "\<forall>r \<in> set (?h # ?r). \<forall>c \<in> set r. CHR ''|'' \<notin> set c \<and> nl \<notin> set c" by simp
  have d: "\<forall>r \<in> set (?h # ?r). \<not> prefix ''---'' (hd r)" by simp
  have e: "nl \<notin> set ?s" by simp
  have f: "prefix ''|---'' (strip ?s)" by code_simp
  show ?thesis
    using table_rows_of_table [OF a b c d e f] by blast
qed

text \<open>
  Claim C4 as the specification words it fails: a separator written with blanks behind
  the pipe is returned as a row of its own, a data row keeps the number of cells it
  was written with, and a data row whose first cell starts with three hyphens is
  taken for a separator.
\<close>

theorem separator_kept_and_rows_ragged:
  "table_rows (table_text [''a'', ''b''] ''| --- | --- |'' [[''1'', ''2'']])
     = [[''a'', ''b''], [''---'', ''---''], [''1'', ''2'']]
   \<and> table_rows (table_text [''a'', ''b''] ''|---|---|'' [[''1'']]) = [[''a'', ''b''], [''1'']]
   \<and> table_rows (table_text [''a'', ''b''] ''|---|---|'' [[''---x'', ''2'']]) = [[''a'', ''b'']]"
  by code_simp

section \<open>Markup left in key points\<close>

lemma subseq_count: "subseq xs ys \<Longrightarrow> count_list xs a \<le> count_list ys a"
  by (induction rule: list_emb.induct) auto

lemma lazy_until_split: "lazy_until dotall cls s = Some (b, r) \<Longrightarrow> s = b @ cls @ r"
  by (induction s arbitrary: b)
    (auto simp: prefix_def split: if_splits option.splits)

lemma lazy_until_body: "lazy_until dotall [x] s = Some (b, r) \<Longrightarrow> x \<notin> set b"
  by (induction s arbitrary: b) (auto split: if_splits option.splits)

lemma lazy_until_None: "lazy_until False [x] s = None \<Longrightarrow> nl \<notin> set s \<Longrightarrow> x \<notin> set s"
  by (induction s) (auto split: if_splits option.splits)

text \<open>Every substitution of the source only deletes characters.\<close>

lemma sub_pair_subseq: "subseq (sub_pair dotall keep opn cls s) s"
proof (induction dotall keep opn cls s rule: sub_pair.induct)
  case (1 dotall keep opn cls)
  show ?case by simp
next
  case (2 dotall keep opn cls c s)
  show ?case
  proof (cases "opn \<noteq> [] \<and> prefix opn (c # s)")
    case False
    with 2 show ?thesis by auto
  next
    case True
    show ?thesis
    proof (cases "lazy_until dotall cls (drop (length opn) (c # s))")
      case None
      with True 2 show ?thesis by auto
    next
      case (Some br)
      obtain b r where br: "br = (b, r)" by (cases br)
      have d: "drop (length opn) (c # s) = b @ cls @ r"
        using Some br by (auto dest: lazy_until_split)
      have "c # s = opn @ drop (length opn) (c # s)"
        using True by (auto simp: prefix_def)
      then have cs: "c # s = opn @ b @ cls @ r" using d by simp
      have ih: "subseq (sub_pair dotall keep opn cls r) r"
        using 2(2) [OF True Some br [symmetric]] by simp
      obtain k where k: "k = (if keep then b else [])" by simp
      have kb: "subseq k b" by (simp add: k)
      have eq: "sub_pair dotall keep opn cls (c # s) = k @ sub_pair dotall keep opn cls r"
        using True Some br by (simp add: k)
      have "subseq (sub_pair dotall keep opn cls r) (cls @ r)"
        using ih by (rule list_emb_append2)
      with kb have "subseq (k @ sub_pair dotall keep opn cls r) (b @ cls @ r)"
        by (rule list_emb_append_mono)
      then have "subseq (k @ sub_pair dotall keep opn cls r) (opn @ b @ cls @ r)"
        by (rule list_emb_append2)
      then have "subseq (k @ sub_pair dotall keep opn cls r) (c # s)"
        by (simp only: cs)
      then show ?thesis by (simp only: eq)
    qed
  qed
qed

lemma sub_link_subseq: "subseq (sub_link keep s) s"
proof (induction keep s rule: sub_link.induct)
  case (1 keep)
  show ?case by simp
next
  case (2 keep c s)
  show ?case
  proof (cases "c = CHR ''[''")
    case False
    with 2 show ?thesis by auto
  next
    case True
    show ?thesis
    proof (cases "lazy_until False '']('' s")
      case None
      with True 2 show ?thesis by auto
    next
      case (Some br)
      obtain b r where br: "br = (b, r)" by (cases br)
      show ?thesis
      proof (cases "lazy_until False '')'' r")
        case None
        with True Some br 2 show ?thesis by auto
      next
        case (Some ur)
        obtain u r' where ur: "ur = (u, r')" by (cases ur)
        have s: "s = b @ '']('' @ r" and r: "r = u @ '')'' @ r'"
          using \<open>lazy_until False '']('' s = Some br\<close> br Some ur
          by (auto dest: lazy_until_split)
        have ih: "subseq (sub_link keep r') r'"
          using 2(3) [OF True \<open>lazy_until False '']('' s = Some br\<close> br [symmetric] Some ur [symmetric]]
          by simp
        obtain k where k: "k = (if keep then b else [])" by simp
        have kb: "subseq k b" by (simp add: k)
        have eq: "sub_link keep (c # s) = k @ sub_link keep r'"
          using True \<open>lazy_until False '']('' s = Some br\<close> br Some ur by (simp add: k)
        have "subseq (sub_link keep r') (('']('' @ u @ '')'') @ r')"
          using ih by (rule list_emb_append2)
        with kb have "subseq (k @ sub_link keep r') (b @ ('']('' @ u @ '')'') @ r')"
          by (rule list_emb_append_mono)
        then have "subseq (k @ sub_link keep r') s"
          using s r by simp
        then have "subseq (k @ sub_link keep r') (c # s)"
          by (rule list_emb_Cons)
        then show ?thesis by (simp only: eq)
      qed
    qed
  qed
qed

lemma strip_subseq: "subseq (strip s) s"
proof -
  have a: "subseq (dropWhile P xs) xs" for P and xs :: string
    by (induction xs) auto
  have b: "subseq (rev (dropWhile P (rev xs))) xs" for P and xs :: string
  proof -
    have "rev (takeWhile P (rev xs) @ dropWhile P (rev xs)) = xs"
      by simp
    then have "rev (dropWhile P (rev xs)) @ rev (takeWhile P (rev xs)) = xs"
      by (simp only: rev_append)
    moreover have "subseq (rev (dropWhile P (rev xs)))
        (rev (dropWhile P (rev xs)) @ rev (takeWhile P (rev xs)))"
      by (rule subseq_rev_drop_many) simp
    ultimately show ?thesis by simp
  qed
  have "subseq (strip s) (dropWhile is_space s)"
    unfolding strip_def strip_chars_def by (rule b)
  then show ?thesis using a [of is_space s] by (rule subseq_order.trans)
qed

text \<open>
  On one line, the pattern of a one-character marker pairs the first marker with the
  second, the third with the fourth and so on, so at most the last one stays.
\<close>

lemma sub_pair_count:
  "nl \<notin> set s \<Longrightarrow> count_list (sub_pair False keep [x] [x] s) x \<le> 1"
proof (induction s rule: length_induct)
  case (1 s)
  show ?case
  proof (cases s)
    case Nil
    then show ?thesis by simp
  next
    case (Cons c t)
    show ?thesis
    proof (cases "c = x")
      case False
      have "count_list (sub_pair False keep [x] [x] t) x \<le> 1"
        using 1 Cons by auto
      with False Cons show ?thesis by simp
    next
      case True
      show ?thesis
      proof (cases "lazy_until False [x] t")
        case None
        then have "x \<notin> set t" using 1(2) Cons by (auto dest: lazy_until_None)
        then have "sub_pair False keep [x] [x] t = t" and "count_list t x = 0"
          by (simp_all add: sub_pair_id)
        with True None Cons show ?thesis by simp
      next
        case (Some br)
        obtain b r where br: "br = (b, r)" by (cases br)
        have t: "t = b @ [x] @ r" and b: "x \<notin> set b"
          using Some br by (auto dest: lazy_until_split lazy_until_body)
        have ih: "count_list (sub_pair False keep [x] [x] r) x \<le> 1"
          using 1 Cons t by auto
        obtain k where k: "k = (if keep then b else [])" by simp
        have k0: "count_list k x = 0" using b by (simp add: k)
        have eq: "sub_pair False keep [x] [x] s = k @ sub_pair False keep [x] [x] r"
          using True Some br Cons by (simp add: k)
        show ?thesis using ih k0 by (simp add: eq)
      qed
    qed
  qed
qed

lemma group_to_end_set: "group_to_end t = Some p \<Longrightarrow> set p \<subseteq> set t"
  by (auto simp: group_to_end_def Let_def split: if_splits dest: set_takeWhileD)

lemma give_back_set: "give_back j r = Some p \<Longrightarrow> set p \<subseteq> set r"
proof (induction j)
  case 0
  then show ?case by (auto dest: group_to_end_set)
next
  case (Suc j)
  show ?case
  proof (cases "group_to_end (drop (Suc j) r)")
    case None
    with Suc show ?thesis by simp
  next
    case (Some q)
    with Suc.prems have "set p \<subseteq> set (drop (Suc j) r)"
      by (auto dest: group_to_end_set)
    then show ?thesis using set_drop_subset [of "Suc j" r] by blast
  qed
qed

lemma bullet_match_set: "bullet_match l = Some g \<Longrightarrow> set g \<subseteq> set l"
proof -
  assume m: "bullet_match l = Some g"
  then obtain c r where d: "dropWhile is_space l = c # r" and "match_rest r = Some g"
    by (auto simp: bullet_match_def split: list.splits if_splits)
  then have "set g \<subseteq> set r"
    by (auto simp: match_rest_def dest: give_back_set)
  moreover have "set (c # r) \<subseteq> set l"
    using set_dropWhileD [of _ is_space l] by (auto simp: d [symmetric])
  ultimately show ?thesis by auto
qed

lemma numbered_match_set: "numbered_match l = Some g \<Longrightarrow> set g \<subseteq> set l"
proof -
  assume m: "numbered_match l = Some g"
  then obtain c r where d: "dropWhile is_digit (dropWhile is_space l) = c # r"
    and "match_rest r = Some g"
    by (auto simp: numbered_match_def Let_def split: list.splits if_splits)
  then have "set g \<subseteq> set r"
    by (auto simp: match_rest_def dest: give_back_set)
  moreover have "set (c # r) \<subseteq> set l"
    using set_dropWhileD [of _ is_digit "dropWhile is_space l"] set_dropWhileD [of _ is_space l]
    by (auto simp: d [symmetric])
  ultimately show ?thesis by auto
qed

lemma subseq_no_nl: "subseq xs ys \<Longrightarrow> nl \<notin> set ys \<Longrightarrow> nl \<notin> set xs"
  using subseq_count [of xs ys nl] by (simp add: count_list_0_iff [symmetric] del: count_list_0_iff)

lemma clean_point_counts:
  assumes "nl \<notin> set g"
  shows "count_list (clean_point g) CHR ''*'' \<le> 1 \<and> count_list (clean_point g) (CHR 0x60) \<le> 1"
proof -
  let ?g0 = "strip g"
  let ?g1 = "sub_pair False True ''**'' ''**'' ?g0"
  let ?g2 = "sub_pair False True ''*'' ''*'' ?g1"
  let ?g3 = "sub_pair False True [CHR 0x60] [CHR 0x60] ?g2"
  have n0: "nl \<notin> set ?g0" using strip_subseq assms by (rule subseq_no_nl)
  have n1: "nl \<notin> set ?g1" using sub_pair_subseq n0 by (rule subseq_no_nl)
  have n2: "nl \<notin> set ?g2" using sub_pair_subseq n1 by (rule subseq_no_nl)
  have s2: "count_list ?g2 CHR ''*'' \<le> 1" using n1 by (rule sub_pair_count)
  have t3: "count_list ?g3 (CHR 0x60) \<le> 1" using n2 by (rule sub_pair_count)
  have "count_list ?g3 CHR ''*'' \<le> count_list ?g2 CHR ''*''"
    using sub_pair_subseq by (rule subseq_count)
  with s2 have s3: "count_list ?g3 CHR ''*'' \<le> 1" by simp
  have "count_list (sub_link True ?g3) CHR ''*'' \<le> count_list ?g3 CHR ''*''"
    and "count_list (sub_link True ?g3) (CHR 0x60) \<le> count_list ?g3 (CHR 0x60)"
    using sub_link_subseq by (rule subseq_count)+
  with s3 t3 show ?thesis by (simp add: clean_point_def)
qed

lemma collect_points:
  assumes "\<And>l g. pattern l = Some g \<Longrightarrow> set g \<subseteq> set l"
    and "\<forall>l \<in> set ls. nl \<notin> set l"
    and "\<forall>p \<in> set points. Q p"
    and "\<And>g. nl \<notin> set g \<Longrightarrow> Q (clean_point g)"
  shows "\<forall>p \<in> set (collect pattern ls points). Q p"
  using assms(2,3)
proof (induction ls arbitrary: points)
  case Nil
  then show ?case by simp
next
  case (Cons l ls)
  show ?case
  proof (cases "pattern l")
    case None
    with Cons show ?thesis by simp
  next
    case (Some g)
    then have "nl \<notin> set g" using assms(1) Cons.prems(1) by fastforce
    then have pts: "\<forall>p \<in> set (points @ [clean_point g]). Q p"
      using Cons.prems(2) assms(4) by auto
    from Cons.prems(1) have ls: "\<forall>l \<in> set ls. nl \<notin> set l" by simp
    have "\<forall>p \<in> set (collect pattern ls (points @ [clean_point g])). Q p"
      using ls pts by (rule Cons.IH)
    with Some show ?thesis by simp
  qed
qed

text \<open>
  Claim C2, as amended. For every section body \<open>extract_key_points\<close> returns at
  most 8 points, and every returned point holds at most one asterisk and at most one
  backtick: paired markers are removed, a marker without a partner stays.
\<close>

theorem key_points_at_most_eight_one_marker_left:
  "length (extract_key_points body) \<le> 8
   \<and> (\<forall>p \<in> set (extract_key_points body).
        count_list p CHR ''*'' \<le> 1 \<and> count_list p (CHR 0x60) \<le> 1)"
proof -
  let ?Q = "\<lambda>p. count_list p CHR ''*'' \<le> 1 \<and> count_list p (CHR 0x60) \<le> 1"
  have lines: "\<forall>l \<in> set (split_on nl body). nl \<notin> set l"
    by (auto dest: split_on_no_sep)
  have none: "\<forall>p \<in> set []. ?Q p" by simp
  have clean: "?Q (clean_point g)" if "nl \<notin> set g" for g
    using that by (rule clean_point_counts)
  have bullets: "\<forall>p \<in> set (collect bullet_match (split_on nl body) []). ?Q p"
    by (rule collect_points [where Q = ?Q, OF bullet_match_set lines none clean])
  have "\<forall>p \<in> set (all_points body). ?Q p"
    unfolding all_points_def
    by (rule collect_points [where Q = ?Q, OF numbered_match_set lines bullets clean])
  then have "\<forall>p \<in> set (extract_key_points body). ?Q p"
    unfolding extract_key_points_def by (meson in_set_takeD)
  then show ?thesis by (simp add: extract_key_points_def)
qed

theorem key_points_at_most_eight_one_marker_left_witness:
  "length (extract_key_points ''- **bold** and *it* `c` [l](u)\<newline>1. a*b'') \<le> 8
   \<and> count_list (extract_key_points ''- **bold** and *it* `c` [l](u)\<newline>1. a*b'' ! 1) CHR ''*'' \<le> 1
   \<and> count_list (extract_key_points ''- **bold** and *it* `c` [l](u)\<newline>1. a*b'' ! 1) (CHR 0x60) \<le> 1"
proof -
  have e: "extract_key_points ''- **bold** and *it* `c` [l](u)\<newline>1. a*b''
      = [''bold and it c l'', ''a*b'']"
    by code_simp
  have m: "extract_key_points ''- **bold** and *it* `c` [l](u)\<newline>1. a*b'' ! 1
      \<in> set (extract_key_points ''- **bold** and *it* `c` [l](u)\<newline>1. a*b'')"
    by (simp add: e)
  show ?thesis
    using key_points_at_most_eight_one_marker_left
      [of "''- **bold** and *it* `c` [l](u)\<newline>1. a*b''"] m
    by blast
qed

text \<open>
  Claim C2 as the specification words it fails: a single asterisk and a single
  backtick stay in their points, and a link whose text holds a link leaves link syntax
  behind.
\<close>

theorem single_markers_and_nested_link_stay:
  "extract_key_points ''- a*b\<newline>- a`b\<newline>- [[a](b)](c)'' = [''a*b'', ''a`b'', ''[a](c)'']"
  by code_simp

end
